theory Spec2Isabelle
  imports Main "HOL-Library.Word"
begin

unbundle bit_operations_syntax

section \<open>Ghost Rover 3 - RTCM relay: data model\<close>

text \<open>
  The sketch \<^verbatim>\<open>DougFoster_Ghost_Rover_EVK_RTCM_relay.ino\<close> (version 3.0.10) runs on an
  ESP32-C6. Its \<^verbatim>\<open>loop()\<close> calls \<^verbatim>\<open>checkSerialUSB()\<close> and then \<^verbatim>\<open>checkRTCMtoRadio()\<close>.

  \<^item> \<^verbatim>\<open>char\<close> is unsigned on this target (RISC-V), and the code relies on it: it compares a
    \<^verbatim>\<open>char\<close> with \<^verbatim>\<open>0xd3\<close> and with \<^verbatim>\<open>255\<close>. A \<^verbatim>\<open>char\<close> is an \<open>8 word\<close>.
  \<^item> \<^verbatim>\<open>uint8_t\<close>, \<^verbatim>\<open>uint16_t\<close> and \<^verbatim>\<open>size_t\<close> are \<open>8 word\<close>, \<open>16 word\<close> and \<open>32 word\<close>;
    \<^verbatim>\<open>++\<close> wraps.
  \<^item> The globals, the function-static variables and the peripherals are the fields of one
    record, passed through every function.
  \<^item> A serial receive queue is the list of bytes still to be read;
    \<^verbatim>\<open>available() > 0\<close> is "the list is not empty". \<^verbatim>\<open>delay\<close> is not modelled.
  \<^item> C does not check array indices. A store or a read past the end of \<^verbatim>\<open>rtcmSentence[300]\<close>
    or \<^verbatim>\<open>command[11]\<close> is undefined behaviour: the store lands in whatever the linker
    placed behind the array. The model records every such access, with its index, in the
    field \<open>oob\<close> and leaves the modelled variables as they are. What it computes up to
    and including the first recorded access is what the program does; what it computes
    after one is not, since the program has by then overwritten memory. A property of
    what the program does is therefore stated for runs that record no access, and a
    defect as the access a run records.
\<close>

type_synonym byte = "8 word"

text \<open>Bytes moved on the two UARTs, in program order: a read from Serial0 (the ZED-F9P),
  a write to Serial1 (the HC-12 radio), a read from Serial1.\<close>

datatype wire = Rd0 byte | Wr1 byte | Rd1 byte

text \<open>An access outside an array: the array, and the index or count used.\<close>

datatype oob = StoreSentence nat | ReadSentence nat | StoreCommand nat | ReadCommand

text \<open>What the sketch prints on the USB console, one constructor for each print statement
  (or group of adjacent ones), with the values its format takes.\<close>

datatype msg =
    ValidCommands
  | AllDebuggingDisabled
  | CommandState nat bool
  | Restarting
  | RadioHelp
  | RadioDisabled
  | EmptyLine
  | Echo byte
  | LedHelp
  | LedDisabled
  | LedOff byte
  | LedOn byte
  | LedActive byte
  | Blink nat
  | LedUsage
  | NotValid "byte list"
  | Rtcm3 "16 word" "16 word" "byte list"

record state =
  serialChar :: byte
  rtcmSentence :: "byte list"
  testLEDr :: bool
  testRad :: bool
  debugRad :: bool
  reset :: bool
  command :: "byte list"
  posn :: "32 word"
  preamble :: "8 word"
  byteCount :: "16 word"
  usb_in :: "byte list"
  usb_out :: "msg list"
  serial0_in :: "byte list"
  serial1_in :: "byte list"
  wire :: "wire list"
  led_radio :: bool
  hc12_set :: bool
  resumes :: nat
  oob :: "oob list"

text \<open>How a call of \<^verbatim>\<open>checkSerialUSB\<close> ends: it returns; or it sits in one of its
  \<^verbatim>\<open>while (true)\<close> test loops with no console input left to read; or it has called
  \<^verbatim>\<open>esp_restart()\<close>.\<close>

datatype outcome = Returned state | Waiting state | Restarted state

definition NUM_COMMANDS :: nat where
  "NUM_COMMANDS = 4"

definition EXIT_TEST :: byte where
  "EXIT_TEST = of_char (CHR ''!'')"

definition COMMANDS :: "byte list list" where
  "COMMANDS = map (map of_char) [''testLEDr'', ''testRad'', ''debugRad'', ''reset'']"

definition RTCM_SIZE :: nat where
  "RTCM_SIZE = 300"

definition COMMAND_SIZE :: nat where
  "COMMAND_SIZE = 11"

text \<open>The state \<^verbatim>\<open>setup()\<close> leaves: flags false, statics zero, HC-12 in transparent mode,
  LED off. The arguments are the bytes that will arrive on the console and on Serial0.\<close>

definition init :: "byte list \<Rightarrow> byte list \<Rightarrow> state" where
  "init console rtcm =
     \<lparr> serialChar = 0, rtcmSentence = replicate RTCM_SIZE 0,
       testLEDr = False, testRad = False, debugRad = False, reset = False,
       command = replicate COMMAND_SIZE 0, posn = 0, preamble = 0, byteCount = 0,
       usb_in = console, usb_out = [], serial0_in = rtcm, serial1_in = [],
       wire = [], led_radio = False, hc12_set = True, resumes = 0, oob = [] \<rparr>"

section \<open>The relay\<close>

subsection \<open>rtcm3GetMessageType\<close>

text \<open>A read through the pointer \<^verbatim>\<open>buffer\<close>; \<open>None\<close> when the index is outside the bytes
  the pointer refers to.\<close>

definition rd :: "byte list \<Rightarrow> nat \<Rightarrow> byte option" where
  "rd buffer i = (if i < length buffer then Some (buffer ! i) else None)"

text \<open>
  \<^verbatim>\<open>if (buffer[0] != 0xD3) return 0;\<close>
  \<^verbatim>\<open>uint16_t message_type = ((uint16_t)buffer[3] << 4) | (buffer[4] >> 4);\<close>
  Both operands are promoted to \<^verbatim>\<open>int\<close> (32 bits) and the result is cut to 16 bits.
\<close>

definition rtcm3GetMessageType :: "byte list \<Rightarrow> 16 word option" where
  "rtcm3GetMessageType buffer =
     (case rd buffer 0 of
        None \<Rightarrow> None
      | Some b0 \<Rightarrow>
          if b0 \<noteq> 0xD3 then Some 0
          else (case rd buffer 3 of
                  None \<Rightarrow> None
                | Some b3 \<Rightarrow>
                    (case rd buffer 4 of
                       None \<Rightarrow> None
                     | Some b4 \<Rightarrow>
                         Some (ucast (push_bit 4 (ucast (ucast b3 :: 16 word) :: 32 word)
                                      OR drop_bit 4 (ucast b4 :: 32 word))))))"

subsection \<open>updateLED\<close>

text \<open>\<^verbatim>\<open>'0'\<close> drives the LED pin low, \<^verbatim>\<open>'1'\<close> high, \<^verbatim>\<open>'2'\<close> calls \<^verbatim>\<open>vTaskResume\<close> on the LED
  task; \<open>resumes\<close> counts those calls.\<close>

definition updateLED :: "byte \<Rightarrow> state \<Rightarrow> state" where
  "updateLED ledR st =
     (if ledR = of_char (CHR ''0'') then st\<lparr>led_radio := False\<rparr>
      else if ledR = of_char (CHR ''1'') then st\<lparr>led_radio := True\<rparr>
      else if ledR = of_char (CHR ''2'') then st\<lparr>resumes := Suc (resumes st)\<rparr>
      else st)"

subsection \<open>checkRTCMtoRadio\<close>

text \<open>\<^verbatim>\<open>rtcmSentence[byteCount] = serialChar;\<close> The code does not compare
  \<^verbatim>\<open>byteCount\<close> with the size of the array. A store at index 300 or more is recorded;
  the variables it overwrites in the real memory are not known to the model.\<close>

definition store_sentence :: "state \<Rightarrow> state" where
  "store_sentence st =
     (let i = unat (byteCount st)
      in if i < RTCM_SIZE then st\<lparr>rtcmSentence := (rtcmSentence st)[i := serialChar st]\<rparr>
         else st\<lparr>oob := oob st @ [StoreSentence i]\<rparr>)"

text \<open>The debug print of the \<^verbatim>\<open>preamble == 2\<close> branch: the message type, the byte count
  and the first \<^verbatim>\<open>byteCount\<close> bytes of the buffer.\<close>

definition debug_sentence :: "state \<Rightarrow> state" where
  "debug_sentence st =
     (let msg_type = (case rtcm3GetMessageType (rtcmSentence st) of Some t \<Rightarrow> t | None \<Rightarrow> 0);
          n = unat (byteCount st);
          st1 = st\<lparr>usb_out := usb_out st @ [Rtcm3 msg_type (byteCount st) (take n (rtcmSentence st))]\<rparr>
      in if RTCM_SIZE < n then st1\<lparr>oob := oob st1 @ [ReadSentence n]\<rparr> else st1)"

definition checkRTCMtoRadio :: "state \<Rightarrow> state" where
  "checkRTCMtoRadio st =
     (case serial0_in st of
        [] \<Rightarrow> st
      | c # rest \<Rightarrow>
          let st1 = st\<lparr>serial0_in := rest, serialChar := c, wire := wire st @ [Rd0 c]\<rparr>;
              st2 = st1\<lparr>wire := wire st1 @ [Wr1 (serialChar st1)]\<rparr>;
              st3 = (if serialChar st2 = 0xD3
                     then st2\<lparr>preamble := (if preamble st2 = 0 then 1 else 2)\<rparr>
                     else st2)
          in if preamble st3 = 1 then
               (let st4 = store_sentence st3 in st4\<lparr>byteCount := byteCount st4 + 1\<rparr>)
             else if preamble st3 = 2 then
               (let st4 = (if debugRad st3 then debug_sentence st3 else st3);
                    st5 = updateLED (of_char (CHR ''2'')) st4
                in st5\<lparr>byteCount := 0, preamble := 0, rtcmSentence := replicate RTCM_SIZE 0\<rparr>)
             else st3)"

text \<open>\<open>relay n\<close>: \<open>n\<close> iterations of the main loop while the console is idle.\<close>

fun relay :: "nat \<Rightarrow> state \<Rightarrow> state" where
  "relay 0 st = st"
| "relay (Suc n) st = relay n (checkRTCMtoRadio st)"

subsection \<open>Observations on the relay\<close>


text \<open>The trace in which every byte is read from Serial0 and written to Serial1 before
  the next one is read.\<close>

fun io_pairs :: "byte list \<Rightarrow> wire list" where
  "io_pairs [] = []"
| "io_pairs (b # bs) = Rd0 b # Wr1 b # io_pairs bs"

text \<open>A well-formed frame of the synthetic stream: the preamble \<open>0xD3\<close>, a second byte
  below the sync threshold, and a body without \<open>0xD3\<close>. The threshold is the one of the
  earlier version of the sketch, which tests \<^verbatim>\<open>((int)serial1Char) < 3\<close> on the byte after
  the preamble; version 3.0.10 tests no second byte.\<close>

definition sync_threshold :: byte where
  "sync_threshold = 3"

definition wf_frame :: "byte list \<Rightarrow> bool" where
  "wf_frame f =
     (case f of
        b0 # b1 # body \<Rightarrow> b0 = 0xD3 \<and> b1 < sync_threshold \<and> 0xD3 \<notin> set body
      | _ \<Rightarrow> False)"

section \<open>The diagnostic console\<close>

subsection \<open>Console helpers\<close>

abbreviation ch :: "char \<Rightarrow> byte" where
  "ch c \<equiv> of_char c"

definition NL :: byte where
  "NL = 0x0A"

definition CR :: byte where
  "CR = 0x0D"

definition serial_print :: "msg \<Rightarrow> state \<Rightarrow> state" where
  "serial_print m st = st\<lparr>usb_out := usb_out st @ [m]\<rparr>"

text \<open>The C string held in a buffer: the bytes before the first NUL.\<close>

definition cstr :: "byte list \<Rightarrow> byte list" where
  "cstr buf = takeWhile (\<lambda>c. c \<noteq> 0) buf"

text \<open>\<^verbatim>\<open>strstr\<close>, \<^verbatim>\<open>strcmp\<close>, \<^verbatim>\<open>strlen\<close>, \<^verbatim>\<open>%s\<close> and \<^verbatim>\<open>Serial1.write(command)\<close> read
  \<^verbatim>\<open>command\<close> up to its first NUL; when the eleven bytes hold none, they read past the
  array.\<close>

definition read_command :: "state \<Rightarrow> state" where
  "read_command st = (if 0 \<in> set (command st) then st else st\<lparr>oob := oob st @ [ReadCommand]\<rparr>)"

text \<open>\<^verbatim>\<open>command[posn] = serialChar; posn++;\<close>\<close>

definition store_command :: "state \<Rightarrow> state" where
  "store_command st =
     (let i = unat (posn st);
          st1 = (if i < COMMAND_SIZE then st\<lparr>command := (command st)[i := serialChar st]\<rparr>
                 else st\<lparr>oob := oob st @ [StoreCommand i]\<rparr>)
      in st1\<lparr>posn := posn st1 + 1\<rparr>)"

text \<open>\<^verbatim>\<open>posn = 0; memset(command, '\0', sizeof(command));\<close>\<close>

definition clear_command :: "state \<Rightarrow> state" where
  "clear_command st = st\<lparr>posn := 0, command := replicate COMMAND_SIZE 0\<rparr>"

definition toupper :: "byte \<Rightarrow> byte" where
  "toupper c = (if ch CHR ''a'' \<le> c \<and> c \<le> ch CHR ''z'' then c - 32 else c)"

subsection \<open>The indicator test loop\<close>

text \<open>Case \<^verbatim>\<open>'2'\<close>: five times \<^verbatim>\<open>updateLED('2')\<close> and \<^verbatim>\<open>"Blink %i"\<close> with \<^verbatim>\<open>i+1\<close>.\<close>

definition blink5 :: "state \<Rightarrow> state" where
  "blink5 st = fold (\<lambda>i s. serial_print (Blink (i + 1)) (updateLED (ch CHR ''2'') s)) [0..<5] st"

text \<open>The \<^verbatim>\<open>while (true)\<close> loop entered when \<^verbatim>\<open>testLEDr\<close> is set. Each pass reads one
  character and discards the next (\<^verbatim>\<open>Serial.read()\<close> on an empty queue removes nothing).
  Only \<^verbatim>\<open>'!'\<close> leaves the loop, by \<^verbatim>\<open>return\<close> from \<^verbatim>\<open>checkSerialUSB\<close>.\<close>

function led_test_loop :: "state \<Rightarrow> outcome" where
  "led_test_loop st =
     (case usb_in st of
        [] \<Rightarrow> Waiting st
      | c # rest \<Rightarrow>
          let st1 = st\<lparr>usb_in := drop 1 rest, serialChar := c\<rparr>
          in if c = EXIT_TEST then
               Returned ((serial_print LedDisabled st1)\<lparr>testLEDr := False\<rparr>)
             else if c = ch CHR ''0'' then
               led_test_loop (updateLED (ch CHR ''0'') (serial_print (LedOff c) st1))
             else if c = ch CHR ''1'' then
               led_test_loop (updateLED (ch CHR ''1'') (serial_print (LedOn c) st1))
             else if c = ch CHR ''2'' then
               led_test_loop (serial_print EmptyLine (blink5 (serial_print (LedActive c) st1)))
             else led_test_loop (serial_print LedUsage st1))"
  by pat_completeness auto

lemma usb_in_serial_print [simp]: "usb_in (serial_print m st) = usb_in st"
  by (simp add: serial_print_def)

lemma usb_in_updateLED [simp]: "usb_in (updateLED c st) = usb_in st"
  by (simp add: updateLED_def)

lemma usb_in_blink5 [simp]: "usb_in (blink5 st) = usb_in st"
proof -
  have "usb_in (fold (\<lambda>i s. serial_print (Blink (i + 1)) (updateLED (ch CHR ''2'') s)) xs st)
        = usb_in st" for xs
    by (induction xs arbitrary: st) simp_all
  then show ?thesis by (simp only: blink5_def)
qed

termination led_test_loop
  by (relation "measure (\<lambda>st. length (usb_in st))") simp_all

subsection \<open>The radio test loop\<close>

text \<open>\<^verbatim>\<open>while (Serial1.available() > 0) Serial1.read();\<close>\<close>

definition flush_serial1 :: "state \<Rightarrow> state" where
  "flush_serial1 st = st\<lparr>wire := wire st @ map Rd1 (serial1_in st), serial1_in := []\<rparr>"

text \<open>Lines 580-593: HC-12 into command mode, a newline to the radio, drop what it
  answers, print the instructions, clear the command buffer.\<close>

definition radio_test_enter :: "state \<Rightarrow> state" where
  "radio_test_enter st =
     (let st1 = st\<lparr>hc12_set := False\<rparr>;
          st2 = st1\<lparr>wire := wire st1 @ [Wr1 NL]\<rparr>;
          st3 = flush_serial1 st2;
          st4 = serial_print RadioHelp st3
      in clear_command st4)"

text \<open>\<^verbatim>\<open>Serial1.write(command);\<close>\<close>

definition write_command :: "state \<Rightarrow> state" where
  "write_command st =
     (let st1 = read_command st in st1\<lparr>wire := wire st1 @ map Wr1 (cstr (command st1))\<rparr>)"

text \<open>The reply of the HC-12, echoed to the console byte by byte unless the byte is 255 or
  \<^verbatim>\<open>posn\<close> is 0.\<close>

definition radio_response :: "state \<Rightarrow> state" where
  "radio_response st =
     fold (\<lambda>r s. let s1 = s\<lparr>serialChar := r, wire := wire s @ [Rd1 r]\<rparr>
                  in if r \<noteq> 255 \<and> 0 < posn s1 then serial_print (Echo r) s1 else s1)
          (serial1_in st) (st\<lparr>serial1_in := []\<rparr>)"

text \<open>The \<^verbatim>\<open>while (true)\<close> loop entered when \<^verbatim>\<open>testRad\<close> is set. Only \<^verbatim>\<open>'!'\<close> leaves it, by
  \<^verbatim>\<open>return\<close> from \<^verbatim>\<open>checkSerialUSB\<close>.\<close>

function radio_test_loop :: "state \<Rightarrow> outcome" where
  "radio_test_loop st =
     (case usb_in st of
        [] \<Rightarrow> Waiting st
      | c0 # rest \<Rightarrow>
          let st1 = st\<lparr>usb_in := rest, serialChar := toupper c0\<rparr>
          in if serialChar st1 = EXIT_TEST then
               (let st2 = serial_print RadioDisabled st1;
                    st3 = st2\<lparr>hc12_set := True\<rparr>;
                    st4 = st3\<lparr>usb_in := drop 1 (usb_in st3)\<rparr>
                in Returned (st4\<lparr>testRad := False\<rparr>))
             else if serialChar st1 = NL then
               radio_test_loop
                 (clear_command (radio_response (serial_print EmptyLine (write_command st1))))
             else if serialChar st1 \<noteq> 255 then
               radio_test_loop (store_command (serial_print (Echo (serialChar st1)) st1))
             else radio_test_loop st1)"
  by pat_completeness auto

lemma usb_in_store_command [simp]: "usb_in (store_command st) = usb_in st"
  by (simp add: store_command_def Let_def)

lemma usb_in_clear_command [simp]: "usb_in (clear_command st) = usb_in st"
  by (simp add: clear_command_def)

lemma usb_in_write_command [simp]: "usb_in (write_command st) = usb_in st"
  by (simp add: write_command_def read_command_def Let_def)

lemma usb_in_radio_response [simp]: "usb_in (radio_response st) = usb_in st"
proof -
  have "usb_in (fold (\<lambda>r s. let s1 = s\<lparr>serialChar := r, wire := wire s @ [Rd1 r]\<rparr>
                  in if r \<noteq> 255 \<and> 0 < posn s1 then serial_print (Echo r) s1 else s1) xs s0)
        = usb_in s0" for xs s0
    by (induction xs arbitrary: s0) (simp_all add: Let_def)
  then show ?thesis by (simp add: radio_response_def)
qed

termination radio_test_loop
  by (relation "measure (\<lambda>st. length (usb_in st))") simp_all

subsection \<open>checkSerialUSB\<close>

text \<open>Cases 0 to 2 of the \<^verbatim>\<open>switch (i)\<close>: flip the flag and print \<^verbatim>\<open>"%s %s\n"\<close> with the
  command name and \<^verbatim>\<open>enabled.\<close> or \<^verbatim>\<open>disabled.\<close> for the new value.\<close>

definition toggle :: "nat \<Rightarrow> state \<Rightarrow> state" where
  "toggle i st =
     (if i = 0 then
        (let st1 = st\<lparr>testLEDr := (if testLEDr st = True then False else True)\<rparr>
         in serial_print (CommandState i (testLEDr st1)) st1)
      else if i = 1 then
        (let st1 = st\<lparr>testRad := (if testRad st = True then False else True)\<rparr>
         in serial_print (CommandState i (testRad st1)) st1)
      else if i = 2 then
        (let st1 = st\<lparr>debugRad := (if debugRad st = True then False else True)\<rparr>
         in serial_print (CommandState i (debugRad st1)) st1)
      else st)"

text \<open>Case 3: flip \<^verbatim>\<open>reset\<close>, print its state and \<^verbatim>\<open>"Restarting ..."\<close>, call
  \<^verbatim>\<open>esp_restart()\<close>.\<close>

definition restart :: "nat \<Rightarrow> state \<Rightarrow> outcome" where
  "restart i st =
     (let st1 = st\<lparr>reset := (if reset st = True then False else True)\<rparr>;
          st2 = serial_print (CommandState i (reset st1)) st1
      in Restarted (serial_print Restarting st2))"

text \<open>Lines 669-675, after the command loop: the error message when nothing matched and
  the string is not empty, then the buffer is cleared and the function returns.\<close>

definition after_commands :: "nat \<Rightarrow> state \<Rightarrow> outcome" where
  "after_commands whichCommand st =
     (let st1 = (if cstr (command st) \<noteq> [] \<and> whichCommand = 100
                 then serial_print (NotValid (cstr (command st))) st else st)
      in Returned (clear_command st1))"

text \<open>The \<^verbatim>\<open>while ((whichCommand == 100) && (i < NUM_COMMANDS))\<close> loop. On a match the
  flag is flipped; then, inside the same \<^verbatim>\<open>if\<close>, the radio test runs when \<^verbatim>\<open>testRad\<close> is
  set and the indicator test when \<^verbatim>\<open>testLEDr\<close> is set, each ending the call.\<close>

function command_loop :: "nat \<Rightarrow> nat \<Rightarrow> state \<Rightarrow> outcome" where
  "command_loop i whichCommand st =
     (if whichCommand = 100 \<and> i < NUM_COMMANDS then
        (if cstr (command st) = COMMANDS ! i then
           (if i = 3 then restart i st
            else
              (let st1 = toggle i st
               in if testRad st1 then radio_test_loop (radio_test_enter st1)
                  else if testLEDr st1 then led_test_loop (serial_print LedHelp st1)
                  else command_loop (i + 1) i st1))
         else command_loop (i + 1) whichCommand st)
      else after_commands whichCommand st)"
  by pat_completeness auto

termination command_loop
  by (relation "measure (\<lambda>(i, w, st). NUM_COMMANDS - i)") simp_all

text \<open>Lines 534-673, run when a line terminator arrives and \<^verbatim>\<open>posn > 0\<close>: a line with a
  \<^verbatim>\<open>'?'\<close> lists the commands; otherwise a line with a \<^verbatim>\<open>'!'\<close> clears the four flags;
  otherwise the command loop.\<close>

definition dispatch :: "state \<Rightarrow> outcome" where
  "dispatch st =
     (let st0 = read_command st
      in if ch CHR ''?'' \<in> set (cstr (command st0)) then
           Returned (clear_command (serial_print ValidCommands st0))
         else if ch CHR ''!'' \<in> set (cstr (command st0)) then
           (let st1 = st0\<lparr>testLEDr := False, testRad := False, debugRad := False,
                           reset := False\<rparr>
            in Returned (clear_command (serial_print AllDebuggingDisabled st1)))
         else command_loop 0 100 st0)"

definition checkSerialUSB :: "state \<Rightarrow> outcome" where
  "checkSerialUSB st =
     (case usb_in st of
        [] \<Rightarrow> Returned st
      | c # rest \<Rightarrow>
          let st1 = st\<lparr>usb_in := rest, serialChar := c\<rparr>
          in if serialChar st1 = NL \<or> serialChar st1 = CR then
               (if 0 < posn st1 then dispatch st1 else Returned (clear_command st1))
             else Returned (store_command st1))"

text \<open>\<open>console n\<close>: \<open>n\<close> calls of \<^verbatim>\<open>checkSerialUSB\<close> from the main loop, stopping when a call
  does not return.\<close>

fun console :: "nat \<Rightarrow> state \<Rightarrow> outcome" where
  "console 0 st = Returned st"
| "console (Suc n) st =
     (case checkSerialUSB st of Returned st1 \<Rightarrow> console n st1 | out \<Rightarrow> out)"

text \<open>One pass of \<^verbatim>\<open>loop()\<close>, and \<open>n\<close> of them.\<close>

definition loop :: "state \<Rightarrow> outcome" where
  "loop st = (case checkSerialUSB st of Returned st1 \<Rightarrow> Returned (checkRTCMtoRadio st1) | out \<Rightarrow> out)"

fun run :: "nat \<Rightarrow> state \<Rightarrow> outcome" where
  "run 0 st = Returned st"
| "run (Suc n) st = (case loop st of Returned st1 \<Rightarrow> run n st1 | out \<Rightarrow> out)"

text \<open>The state an outcome carries.\<close>

fun final :: "outcome \<Rightarrow> state" where
  "final (Returned st) = st"
| "final (Waiting st) = st"
| "final (Restarted st) = st"

section \<open>Properties of rtcm3GetMessageType\<close>

lemma type_code_bits:
  "(ucast (push_bit 4 (ucast (ucast (b3::byte) :: 16 word) :: 32 word)
           OR drop_bit 4 (ucast (b4::byte) :: 32 word)) :: 16 word)
   = push_bit 4 (ucast b3) OR ucast (drop_bit 4 b4)"
  by (rule bit_word_eqI) (auto simp add: bit_simps)

text \<open>
  C4. A buffer that starts \<open>0xD3, 0x00, 0x13, 0x3E, 0xD0\<close> has the type code \<open>0x3ED\<close>,
  whatever follows; and a buffer whose byte 0 is \<open>0xD3\<close> has the type code made of
  byte 3 shifted left by four bits, or-ed with the upper four bits of byte 4.
\<close>

theorem rtcm3GetMessageType_type_code:
  "rtcm3GetMessageType (0xD3 # 0x00 # 0x13 # 0x3E # 0xD0 # rest) = Some 0x3ED
   \<and> rtcm3GetMessageType (0xD3 # b1 # b2 # b3 # b4 # rest)
       = Some (push_bit 4 (ucast b3) OR ucast (drop_bit 4 b4))"
  by (simp add: rtcm3GetMessageType_def rd_def type_code_bits)

lemma byte_lt: "unat (b::byte) < 256"
  using unsigned_less[of b, where 'a=nat] by simp

lemma unat_ucast_byte: "unat (ucast (b::byte) :: 16 word) = unat b"
  using byte_lt[of b] by (simp add: unsigned_ucast_eq take_bit_nat_eq_self)

lemma type_code_unat:
  "unat (push_bit 4 (ucast (b3::byte)) OR ucast (drop_bit 4 (b4::byte)) :: 16 word)
   = 16 * unat b3 + unat b4 div 16"
proof -
  have disj: "(push_bit 4 (ucast b3) OR ucast (drop_bit 4 b4) :: 16 word)
              = push_bit 4 (ucast b3) + ucast (drop_bit 4 b4)"
    by (rule disjunctive_add[symmetric]) (auto simp: bit_simps dest: bit_imp_le_length)
  have hi: "unat (push_bit 4 (ucast b3) :: 16 word) = 16 * unat b3"
    using byte_lt[of b3] by (simp add: push_bit_eq_mult unat_word_ariths unat_ucast_byte)
  have lo: "unat (ucast (drop_bit 4 b4) :: 16 word) = unat b4 div 16"
    by (simp add: unat_ucast_byte drop_bit_eq_div unat_div)
  have "16 * unat b3 + unat b4 div 16 < 2 ^ 16"
    using byte_lt[of b3] byte_lt[of b4] by simp
  then show ?thesis
    unfolding disj by (simp add: unat_add_lem[THEN iffD1] hi lo)
qed

lemma type_code_zero:
  "(push_bit 4 (ucast (b3::byte)) OR ucast (drop_bit 4 (b4::byte)) = (0 :: 16 word))
   = (b3 = 0 \<and> b4 < 0x10)"
proof -
  have "(push_bit 4 (ucast b3) OR ucast (drop_bit 4 b4) = (0 :: 16 word))
        = (unat (push_bit 4 (ucast b3) OR ucast (drop_bit 4 b4) :: 16 word) = 0)"
    by (simp add: unat_eq_0)
  also have "\<dots> = (unat b3 = 0 \<and> unat b4 < 16)"
    by (simp add: type_code_unat div_eq_0_iff)
  also have "\<dots> = (b3 = 0 \<and> b4 < 0x10)"
    by (simp add: unat_eq_0 word_less_nat_alt)
  finally show ?thesis .
qed

text \<open>
  C10, as the code has it. When byte 0 is not \<open>0xD3\<close> the function returns 0 and reads
  nothing else: it does so even on a buffer of one byte. The value 0 tells such a buffer
  from a frame with the preamble exactly when that frame's type code is not 0, that is
  when its byte 3 is not 0 or its byte 4 is \<open>0x10\<close> or more.
\<close>

theorem rtcm3GetMessageType_no_preamble:
  "(b0 \<noteq> 0xD3 \<longrightarrow> rtcm3GetMessageType (b0 # rest) = Some 0)
   \<and> ((rtcm3GetMessageType (0xD3 # b1 # b2 # b3 # b4 # rest') = Some 0)
        = (b3 = 0 \<and> b4 < 0x10))"
  by (simp add: rtcm3GetMessageType_def rd_def type_code_bits type_code_zero)

theorem rtcm3GetMessageType_no_preamble_witness:
  "rtcm3GetMessageType [0x00] = Some 0
   \<and> rtcm3GetMessageType [0xD3, 0x00, 0x13, 0x3E, 0xD0] \<noteq> Some 0"
  using rtcm3GetMessageType_no_preamble [of "0x00" "[]" "0x00" "0x13" "0x3E" "0xD0" "[]"]
  by simp

text \<open>The frame \<open>0xD3, 0, 0, 0, 0\<close> is well formed and has the type code 0, the value
  returned for a buffer without the preamble.\<close>

theorem rtcm3GetMessageType_zero_counterexample:
  "wf_frame [0xD3, 0x00, 0x00, 0x00, 0x00]
   \<and> rtcm3GetMessageType [0xD3, 0x00, 0x00, 0x00, 0x00]
       = rtcm3GetMessageType [0x00, 0x00, 0x00, 0x00, 0x00]"
  by (simp add: rtcm3GetMessageType_def rd_def wf_frame_def sync_threshold_def)

section \<open>Properties of the relay\<close>

lemma relay_add: "relay (m + n) st = relay n (relay m st)"
  by (induction m arbitrary: st) simp_all



lemma checkRTCMtoRadio_io:
  "serial0_in st = c # rest \<Longrightarrow>
   wire (checkRTCMtoRadio st) = wire st @ [Rd0 c, Wr1 c]
   \<and> serial0_in (checkRTCMtoRadio st) = rest"
  by (simp add: checkRTCMtoRadio_def Let_def store_sentence_def debug_sentence_def
        updateLED_def)

lemma relay_io:
  "serial0_in st = bs @ rest \<Longrightarrow>
   wire (relay (length bs) st) = wire st @ io_pairs bs
   \<and> serial0_in (relay (length bs) st) = rest"
proof (induction bs arbitrary: st)
  case Nil
  then show ?case by simp
next
  case (Cons b bs)
  from Cons.prems have "serial0_in st = b # (bs @ rest)" by simp
  from checkRTCMtoRadio_io[OF this] Cons.IH[of "checkRTCMtoRadio st"]
  show ?case by simp
qed

lemma relay_rest:
  "serial0_in st = bs @ rest \<Longrightarrow> serial0_in (relay (length bs) st) = rest"
  using relay_io by blast

lemma usb_in_checkRTCMtoRadio: "usb_in (checkRTCMtoRadio st) = usb_in st"
  by (simp add: checkRTCMtoRadio_def Let_def store_sentence_def debug_sentence_def
        updateLED_def split: list.splits)

text \<open>With no console input, \<open>n\<close> passes of \<^verbatim>\<open>loop()\<close> are \<open>n\<close> calls of
  \<^verbatim>\<open>checkRTCMtoRadio\<close>.\<close>

lemma run_console_idle: "usb_in st = [] \<Longrightarrow> run n st = Returned (relay n st)"
  by (induction n arbitrary: st)
    (simp_all add: loop_def checkSerialUSB_def usb_in_checkRTCMtoRadio)

lemma oob_checkRTCMtoRadio: "\<exists>ev. oob (checkRTCMtoRadio st) = oob st @ ev"
  by (simp add: checkRTCMtoRadio_def Let_def store_sentence_def debug_sentence_def
        updateLED_def split: list.splits)

lemma oob_relay: "\<exists>ev. oob (relay n st) = oob st @ ev"
proof (induction n arbitrary: st)
  case 0
  then show ?case by simp
next
  case (Suc n)
  obtain e1 where e1: "oob (checkRTCMtoRadio st) = oob st @ e1"
    using oob_checkRTCMtoRadio by blast
  obtain e2 where "oob (relay n (checkRTCMtoRadio st)) = oob (checkRTCMtoRadio st) @ e2"
    using Suc.IH by blast
  with e1 show ?case by simp
qed

text \<open>The record of out-of-range accesses only grows: a run that ends with nothing new
  recorded has recorded nothing on the way.\<close>

lemma oob_relay_during:
  assumes "oob (relay (m + n) st) = oob st"
  shows "oob (relay m st) = oob st"
proof -
  obtain e1 where e1: "oob (relay m st) = oob st @ e1" using oob_relay by blast
  obtain e2 where e2: "oob (relay n (relay m st)) = oob (relay m st) @ e2"
    using oob_relay by blast
  from assms e1 e2 have "e1 = []" by (simp add: relay_add)
  with e1 show ?thesis by simp
qed



text \<open>A stream outside the statement: \<open>0xD3\<close>, 300 bytes \<open>0x01\<close> and one byte \<open>0x02\<close>.
  The last two bytes are stored at \<^verbatim>\<open>rtcmSentence[300]\<close> and \<^verbatim>\<open>rtcmSentence[301]\<close>.\<close>

lemma relay_overrun_example:
  "oob (relay 302 (init [] (0xD3 # replicate 300 1 @ [2])))
   = [StoreSentence 300, StoreSentence 301]"
  by code_simp

subsection \<open>Frame-complete events\<close>

lemma step_other:
  assumes "serial0_in st = c # rest" "c \<noteq> 0xD3" "preamble st = 0 \<or> preamble st = 1"
  shows "preamble (checkRTCMtoRadio st) = preamble st"
    and "resumes (checkRTCMtoRadio st) = resumes st"
    and "serial0_in (checkRTCMtoRadio st) = rest"
  using assms by (auto simp add: checkRTCMtoRadio_def Let_def store_sentence_def)

lemma step_open:
  assumes "serial0_in st = 0xD3 # rest" "preamble st = 0"
  shows "preamble (checkRTCMtoRadio st) = 1"
    and "resumes (checkRTCMtoRadio st) = resumes st"
    and "serial0_in (checkRTCMtoRadio st) = rest"
  using assms by (auto simp add: checkRTCMtoRadio_def Let_def store_sentence_def)

lemma step_close:
  assumes "serial0_in st = 0xD3 # rest" "preamble st = 1"
  shows "preamble (checkRTCMtoRadio st) = 0"
    and "resumes (checkRTCMtoRadio st) = Suc (resumes st)"
    and "serial0_in (checkRTCMtoRadio st) = rest"
  using assms by (auto simp add: checkRTCMtoRadio_def Let_def debug_sentence_def updateLED_def)

lemma relay_body:
  "serial0_in st = bs @ rest \<Longrightarrow> 0xD3 \<notin> set bs \<Longrightarrow> preamble st = 0 \<or> preamble st = 1 \<Longrightarrow>
   preamble (relay (length bs) st) = preamble st
   \<and> resumes (relay (length bs) st) = resumes st
   \<and> serial0_in (relay (length bs) st) = rest"
proof (induction bs arbitrary: st)
  case Nil
  then show ?case by simp
next
  case (Cons b bs)
  have s: "serial0_in st = b # (bs @ rest)" and nb: "b \<noteq> 0xD3"
    using Cons.prems by auto
  note st = step_other[OF s nb Cons.prems(3)]
  have "preamble (checkRTCMtoRadio st) = 0 \<or> preamble (checkRTCMtoRadio st) = 1"
    using st(1) Cons.prems(3) by simp
  from Cons.IH[OF st(3) _ this] Cons.prems(2) st
  show ?case by simp
qed

text \<open>One well-formed frame: from \<open>preamble = 0\<close> its first byte opens a sentence and
  nothing closes it; from \<open>preamble = 1\<close> its first byte closes the sentence that was open,
  sets \<open>preamble\<close> back to 0, and the rest of the frame goes by unrecorded.\<close>

lemma relay_frame:
  assumes wf: "wf_frame f" and inp: "serial0_in st = f @ rest"
  shows "preamble st = 0 \<Longrightarrow>
           preamble (relay (length f) st) = 1 \<and> resumes (relay (length f) st) = resumes st"
    and "preamble st = 1 \<Longrightarrow>
           preamble (relay (length f) st) = 0
           \<and> resumes (relay (length f) st) = Suc (resumes st)"
proof -
  from wf obtain b1 body where f: "f = 0xD3 # b1 # body"
    and b1: "b1 < sync_threshold" and body: "0xD3 \<notin> set body"
    by (auto simp: wf_frame_def split: list.splits)
  have "b1 \<noteq> 0xD3" using b1 by (auto simp: sync_threshold_def)
  with body have tl: "0xD3 \<notin> set (b1 # body)" by simp
  have s: "serial0_in st = 0xD3 # ((b1 # body) @ rest)" using inp f by simp
  have len: "relay (length f) st = relay (length (b1 # body)) (checkRTCMtoRadio st)"
    by (simp add: f)
  { assume p: "preamble st = 0"
    note o = step_open[OF s p]
    from relay_body[OF o(3) tl] o
    show "preamble (relay (length f) st) = 1 \<and> resumes (relay (length f) st) = resumes st"
      unfolding len by simp }
  { assume p: "preamble st = 1"
    note o = step_close[OF s p]
    from relay_body[OF o(3) tl] o
    show "preamble (relay (length f) st) = 0
          \<and> resumes (relay (length f) st) = Suc (resumes st)"
      unfolding len by simp }
qed

lemma relay_frames:
  "\<forall>f\<in>set frames. wf_frame f \<Longrightarrow> serial0_in st = concat frames @ rest \<Longrightarrow>
   (preamble st = 0 \<longrightarrow>
      resumes (relay (length (concat frames)) st) = resumes st + length frames div 2
      \<and> preamble (relay (length (concat frames)) st)
          = (if even (length frames) then 0 else 1))
   \<and> (preamble st = 1 \<longrightarrow>
      resumes (relay (length (concat frames)) st) = resumes st + Suc (length frames) div 2
      \<and> preamble (relay (length (concat frames)) st)
          = (if even (length frames) then 1 else 0))"
proof (induction frames arbitrary: st)
  case Nil
  then show ?case by simp
next
  case (Cons f fs)
  let ?st1 = "relay (length f) st"
  have wf: "wf_frame f" and wfs: "\<forall>f\<in>set fs. wf_frame f" using Cons.prems(1) by simp_all
  have inp: "serial0_in st = f @ (concat fs @ rest)" using Cons.prems(2) by simp
  have rest1: "serial0_in ?st1 = concat fs @ rest" by (rule relay_rest[OF inp])
  have split: "relay (length (concat (f # fs))) st = relay (length (concat fs)) ?st1"
    by (simp add: relay_add)
  note IH = Cons.IH[OF wfs rest1]
  note fr = relay_frame[OF wf inp]
  show ?case
  proof (intro conjI impI)
    assume p: "preamble st = 0"
    from fr(1)[OF p] IH
    show "resumes (relay (length (concat (f # fs))) st) = resumes st + length (f # fs) div 2"
      unfolding split by simp
    from fr(1)[OF p] IH
    show "preamble (relay (length (concat (f # fs))) st)
          = (if even (length (f # fs)) then 0 else 1)"
      unfolding split by simp
  next
    assume p: "preamble st = 1"
    from fr(2)[OF p] IH
    show "resumes (relay (length (concat (f # fs))) st)
          = resumes st + Suc (length (f # fs)) div 2"
      unfolding split by simp
    from fr(2)[OF p] IH
    show "preamble (relay (length (concat (f # fs))) st)
          = (if even (length (f # fs)) then 1 else 0)"
      unfolding split by simp
  qed
qed

text \<open>
  C2, what the code does. Started with \<open>preamble = 0\<close> on a stream of \<open>K\<close> well-formed
  frames, \<^verbatim>\<open>checkRTCMtoRadio\<close> reaches its \<^verbatim>\<open>preamble == 2\<close> branch (the call
  \<^verbatim>\<open>updateLED('2')\<close>) \<open>K div 2\<close> times, not \<open>K\<close> times: the preamble that closes a sentence
  resets \<open>preamble\<close> to 0 and is not taken as the start of the next one, so every second
  frame passes without an event.
\<close>

theorem frame_events_half:
  "\<forall>f\<in>set frames. wf_frame f \<Longrightarrow> preamble st = 0 \<Longrightarrow>
   resumes (relay (length (concat frames)) (st\<lparr>serial0_in := concat frames\<rparr>))
   = resumes st + length frames div 2"
  using relay_frames[of frames "st\<lparr>serial0_in := concat frames\<rparr>" "[]"] by simp

theorem frame_events_half_witness:
  "wf_frame [0xD3, 0x00, 0x13, 0x3E, 0xD0]
   \<and> resumes (relay 5 (init [] [0xD3, 0x00, 0x13, 0x3E, 0xD0])) = 0"
proof -
  have wf: "\<forall>f\<in>set [[0xD3, 0x00, 0x13, 0x3E, 0xD0]]. wf_frame f"
    by (simp add: wf_frame_def sync_threshold_def)
  have p: "preamble (init [] []) = 0" by (simp add: init_def)
  have e: "(init [] [])\<lparr>serial0_in := concat [[0xD3, 0x00, 0x13, 0x3E, 0xD0]]\<rparr>
           = init [] [0xD3, 0x00, 0x13, 0x3E, 0xD0]"
    by (simp add: init_def)
  have l: "length (concat [[0xD3, 0x00, 0x13, 0x3E, 0xD0 :: byte]]) = 5"
    and k: "resumes (init [] []) + length [[0xD3, 0x00, 0x13, 0x3E, 0xD0 :: byte]] div 2 = 0"
    by (simp_all add: init_def)
  from frame_events_half[OF wf p]
  have "resumes (relay 5 (init [] [0xD3, 0x00, 0x13, 0x3E, 0xD0])) = 0"
    unfolding e l k .
  with wf show ?thesis by simp
qed

subsection \<open>Stores into rtcmSentence\<close>

lemma u16_suc: "unat (x :: 16 word) < 65535 \<Longrightarrow> unat (x + 1) = Suc (unat x)"
  by (simp add: unat_word_ariths)

lemma step_store:
  assumes "serial0_in st = c # rest" "c \<noteq> 0xD3" "preamble st = 1"
  shows "preamble (checkRTCMtoRadio st) = 1"
    and "byteCount (checkRTCMtoRadio st) = byteCount st + 1"
    and "oob (checkRTCMtoRadio st)
         = (if unat (byteCount st) < RTCM_SIZE then oob st
            else oob st @ [StoreSentence (unat (byteCount st))])"
    and "serial0_in (checkRTCMtoRadio st) = rest"
  using assms by (auto simp add: checkRTCMtoRadio_def Let_def store_sentence_def)

lemma step_first:
  assumes "serial0_in st = 0xD3 # rest" "preamble st = 0"
  shows "preamble (checkRTCMtoRadio st) = 1"
    and "byteCount (checkRTCMtoRadio st) = byteCount st + 1"
    and "oob (checkRTCMtoRadio st)
         = (if unat (byteCount st) < RTCM_SIZE then oob st
            else oob st @ [StoreSentence (unat (byteCount st))])"
    and "serial0_in (checkRTCMtoRadio st) = rest"
  using assms by (auto simp add: checkRTCMtoRadio_def Let_def store_sentence_def)

text \<open>While the counter stays within the array, the bytes of an open sentence are stored
  in range and counted.\<close>

lemma relay_store:
  "serial0_in st = bs @ rest \<Longrightarrow> 0xD3 \<notin> set bs \<Longrightarrow> preamble st = 1 \<Longrightarrow>
   unat (byteCount st) + length bs \<le> RTCM_SIZE \<Longrightarrow>
   preamble (relay (length bs) st) = 1
   \<and> unat (byteCount (relay (length bs) st)) = unat (byteCount st) + length bs
   \<and> oob (relay (length bs) st) = oob st
   \<and> serial0_in (relay (length bs) st) = rest"
proof (induction bs arbitrary: st)
  case Nil
  then show ?case by simp
next
  case (Cons b bs)
  have s: "serial0_in st = b # (bs @ rest)" and nb: "b \<noteq> 0xD3"
    using Cons.prems by auto
  note st = step_store[OF s nb Cons.prems(3)]
  have lt: "unat (byteCount st) < RTCM_SIZE" using Cons.prems(4) by simp
  then have cnt: "unat (byteCount (checkRTCMtoRadio st)) = Suc (unat (byteCount st))"
    using st(2) by (simp add: u16_suc RTCM_SIZE_def)
  have "unat (byteCount (checkRTCMtoRadio st)) + length bs \<le> RTCM_SIZE"
    using cnt Cons.prems(4) by simp
  from Cons.IH[OF st(4) _ st(1) this] Cons.prems(2) st lt cnt
  show ?case by simp
qed

text \<open>
  C3, what the code does. A frame that opens with \<open>0xD3\<close> and goes on for 300 bytes
  without another \<open>0xD3\<close> makes \<^verbatim>\<open>checkRTCMtoRadio\<close> execute
  \<^verbatim>\<open>rtcmSentence[byteCount] = serialChar\<close> with \<open>byteCount = 300\<close>, one past the last
  element of the array: nothing in the function bounds \<open>byteCount\<close>.
\<close>

theorem never_closing_frame_overruns:
  assumes "0xD3 \<notin> set body" "length body = RTCM_SIZE" "preamble st = 0" "byteCount st = 0"
  shows "oob (relay (Suc (length body)) (st\<lparr>serial0_in := 0xD3 # body\<rparr>))
         = oob st @ [StoreSentence RTCM_SIZE]"
proof -
  from assms(2) obtain pre x where body: "body = pre @ [x]"
    by (cases body rule: rev_cases) (simp_all add: RTCM_SIZE_def)
  have lp: "Suc (length pre) = RTCM_SIZE" using assms(2) body by simp
  have nb: "0xD3 \<notin> set pre" and nx: "x \<noteq> 0xD3" using assms(1) body by auto
  let ?st0 = "st\<lparr>serial0_in := 0xD3 # body\<rparr>"
  let ?st1 = "checkRTCMtoRadio ?st0"
  let ?st2 = "relay (length pre) ?st1"
  have s0: "serial0_in ?st0 = 0xD3 # (pre @ [x])" using body by simp
  have p0: "preamble ?st0 = 0" using assms(3) by simp
  note o = step_first[OF s0 p0]
  have c1: "unat (byteCount ?st1) = 1" using o(2) assms(4) by simp
  have o1: "oob ?st1 = oob st" using o(3) assms(4) by (simp add: RTCM_SIZE_def)
  have le: "unat (byteCount ?st1) + length pre \<le> RTCM_SIZE" using c1 lp by simp
  note m = relay_store[OF o(4) nb o(1) le]
  have c2: "unat (byteCount ?st2) = RTCM_SIZE" using m c1 lp by simp
  have s2: "serial0_in ?st2 = [x]" and p2: "preamble ?st2 = 1" using m by simp_all
  note f = step_store[OF s2 nx p2]
  have "relay (Suc (length body)) ?st0 = relay (length pre + 1) ?st1"
    unfolding body by simp
  also have "\<dots> = checkRTCMtoRadio ?st2"
    unfolding relay_add by simp
  finally show ?thesis using f(3) c2 m o1 by simp
qed

theorem never_closing_frame_overruns_witness:
  "oob (relay 301 (init [] (0xD3 # replicate 300 0))) = [StoreSentence 300]"
proof -
  have e: "(init [] [])\<lparr>serial0_in := 0xD3 # replicate 300 0\<rparr>
           = init [] (0xD3 # replicate 300 0)"
    by (simp add: init_def)
  have h: "0xD3 \<notin> set (replicate 300 (0::byte))"
    "length (replicate 300 (0::byte)) = RTCM_SIZE"
    "preamble (init [] []) = 0" "byteCount (init [] []) = 0"
    by (simp_all add: init_def RTCM_SIZE_def)
  have l: "Suc (length (replicate 300 (0::byte))) = 301" "oob (init [] []) = []"
    "RTCM_SIZE = 300"
    by (simp_all add: init_def RTCM_SIZE_def)
  from never_closing_frame_overruns[OF h]
  show ?thesis unfolding e l by simp
qed

section \<open>Properties of the console\<close>

subsection \<open>Accumulating a line\<close>

lemma unat_posn: "n \<le> COMMAND_SIZE \<Longrightarrow> unat (of_nat n :: 32 word) = n"
  by (simp add: COMMAND_SIZE_def unsigned_of_nat take_bit_nat_eq_self)

lemma pad_store:
  "length pre < COMMAND_SIZE \<Longrightarrow>
   (pre @ replicate (COMMAND_SIZE - length pre) 0)[length pre := c]
   = (pre @ [c]) @ replicate (COMMAND_SIZE - length (pre @ [c])) (0::byte)"
proof -
  assume "length pre < COMMAND_SIZE"
  then obtain m where m: "COMMAND_SIZE - length pre = Suc m" and m': "COMMAND_SIZE - Suc (length pre) = m"
    by (cases "COMMAND_SIZE - length pre") auto
  show ?thesis by (simp add: m m' list_update_append)
qed

lemma checkSerialUSB_store:
  assumes "usb_in st = c # rest" "c \<noteq> NL" "c \<noteq> CR"
    and "command st = pre @ replicate (COMMAND_SIZE - length pre) 0"
    and "posn st = of_nat (length pre)" "length pre < COMMAND_SIZE"
  shows "checkSerialUSB st =
         Returned (st\<lparr>usb_in := rest, serialChar := c,
                      command := (pre @ [c]) @ replicate (COMMAND_SIZE - length (pre @ [c])) 0,
                      posn := of_nat (length (pre @ [c]))\<rparr>)"
proof -
  have u: "unat (posn st) = length pre" using assms(5,6) by (simp add: unat_posn)
  show ?thesis
    using assms(1-3,6) u pad_store[OF assms(6), of c]
    by (simp add: checkSerialUSB_def store_command_def Let_def assms(4) assms(5))
qed

text \<open>Characters other than line terminators are stored one after the other, as long as
  they fit the array.\<close>

lemma feed:
  "usb_in st = line @ rest \<Longrightarrow> NL \<notin> set line \<Longrightarrow> CR \<notin> set line \<Longrightarrow> line \<noteq> [] \<Longrightarrow>
   command st = pre @ replicate (COMMAND_SIZE - length pre) 0 \<Longrightarrow>
   posn st = of_nat (length pre) \<Longrightarrow> length pre + length line \<le> COMMAND_SIZE \<Longrightarrow>
   console (length line + n) st =
     console n (st\<lparr>usb_in := rest, serialChar := last line,
                    command := (pre @ line) @ replicate (COMMAND_SIZE - length (pre @ line)) 0,
                    posn := of_nat (length (pre @ line))\<rparr>)"
proof (induction line arbitrary: st pre)
  case Nil
  then show ?case by simp
next
  case (Cons c line)
  let ?st1 = "st\<lparr>usb_in := line @ rest, serialChar := c,
                      command := (pre @ [c]) @ replicate (COMMAND_SIZE - length (pre @ [c])) 0,
                      posn := of_nat (length (pre @ [c]))\<rparr>"
  have c: "c \<noteq> NL" "c \<noteq> CR" using Cons.prems by auto
  have lt: "length pre < COMMAND_SIZE" using Cons.prems(7) by simp
  have u: "usb_in st = c # (line @ rest)" using Cons.prems(1) by simp
  have step: "checkSerialUSB st = Returned ?st1"
    by (rule checkSerialUSB_store[OF u c Cons.prems(5) Cons.prems(6) lt])
  show ?case
  proof (cases "line = []")
    case True
    then show ?thesis using step by simp
  next
    case False
    have "console (length line + n) ?st1 =
          console n (?st1\<lparr>usb_in := rest, serialChar := last line,
                    command := ((pre @ [c]) @ line) @ replicate (COMMAND_SIZE - length ((pre @ [c]) @ line)) 0,
                    posn := of_nat (length ((pre @ [c]) @ line))\<rparr>)"
      using Cons.prems by (intro Cons.IH) (simp_all add: False)
    then show ?thesis using step False by simp
  qed
qed


subsection \<open>Dispatch\<close>

declare led_test_loop.simps [simp del]
declare radio_test_loop.simps [simp del]
declare command_loop.simps [simp del]

lemma console_after:
  "(case d of Returned st1 \<Rightarrow> console 0 st1 | Waiting s \<Rightarrow> Waiting s
    | Restarted s \<Rightarrow> Restarted s) = d"
  by (cases d) simp_all

lemma posn_pos: "0 < n \<Longrightarrow> n \<le> COMMAND_SIZE \<Longrightarrow> 0 < (of_nat n :: 32 word)"
  by (simp add: word_less_nat_alt unat_posn)

lemma cstr_pad: "0 < m \<Longrightarrow> cstr (xs @ replicate m 0) = cstr xs"
  by (induction xs) (auto simp: cstr_def gr0_conv_Suc)

text \<open>A line typed into a cleared buffer, then a terminator: the call that reads the
  terminator runs dispatch on the buffer holding the line.\<close>

lemma console_line:
  assumes "posn st = 0" "command st = replicate COMMAND_SIZE 0"
    and "line \<noteq> []" "length line < COMMAND_SIZE" "NL \<notin> set line" "CR \<notin> set line"
    and "nl = NL \<or> nl = CR"
  shows "console (Suc (length line)) (st\<lparr>usb_in := line @ nl # rest\<rparr>) =
         dispatch (st\<lparr>usb_in := rest, serialChar := nl,
                      command := line @ replicate (COMMAND_SIZE - length line) 0,
                      posn := of_nat (length line)\<rparr>)"
proof -
  let ?st0 = "st\<lparr>usb_in := line @ nl # rest\<rparr>"
  let ?st1 = "st\<lparr>usb_in := nl # rest, serialChar := last line,
                   command := line @ replicate (COMMAND_SIZE - length line) 0,
                   posn := of_nat (length line)\<rparr>"
  have "console (length line + 1) ?st0 =
        console 1 (?st0\<lparr>usb_in := nl # rest, serialChar := last line,
                    command := ([] @ line) @ replicate (COMMAND_SIZE - length ([] @ line)) 0,
                    posn := of_nat (length ([] @ line))\<rparr>)"
    using assms by (intro feed) simp_all
  then have f: "console (Suc (length line)) ?st0 = console 1 ?st1" by simp
  have pos: "0 < (of_nat (length line) :: 32 word)"
    using assms(3,4) by (simp add: posn_pos)
  have "checkSerialUSB ?st1 =
        dispatch (st\<lparr>usb_in := rest, serialChar := nl,
                      command := line @ replicate (COMMAND_SIZE - length line) 0,
                      posn := of_nat (length line)\<rparr>)"
    using assms(7) pos by (cases st) (auto simp add: checkSerialUSB_def Let_def)
  then show ?thesis unfolding f by (simp add: console_after)
qed

lemma command_loop_none:
  "\<forall>j. i \<le> j \<and> j < NUM_COMMANDS \<longrightarrow> cstr (command st) \<noteq> COMMANDS ! j \<Longrightarrow> w = 100 \<Longrightarrow>
   command_loop i w st = after_commands 100 st"
proof (induction i w st rule: command_loop.induct)
  case (1 i whichCommand st)
  show ?case
  proof (cases "i < NUM_COMMANDS")
    case True
    have ne: "cstr (command st) \<noteq> COMMANDS ! i" using "1.prems" True by auto
    have "command_loop (i + 1) whichCommand st = after_commands 100 st"
      using "1.prems" True ne by (intro "1.IH"(2)) auto
    then show ?thesis using True ne "1.prems"(2) by (subst command_loop.simps) simp
  next
    case False
    then show ?thesis using "1.prems"(2) by (subst command_loop.simps) simp
  qed
qed

lemma dispatch_unknown:
  assumes "command st = line @ replicate (COMMAND_SIZE - length line) 0"
    and "length line < COMMAND_SIZE" "cstr line \<noteq> []"
    and "ch CHR ''?'' \<notin> set (cstr line)" "ch CHR ''!'' \<notin> set (cstr line)"
    and "cstr line \<notin> set COMMANDS"
  shows "dispatch st = Returned (clear_command (serial_print (NotValid (cstr line)) st))"
proof -
  have c: "cstr (command st) = cstr line" using assms(1,2) by (simp add: cstr_pad)
  have z: "0 \<in> set (command st)" using assms(1,2) by simp
  have r: "read_command st = st" using z by (simp add: read_command_def)
  have "\<forall>j. 0 \<le> j \<and> j < NUM_COMMANDS \<longrightarrow> cstr (command st) \<noteq> COMMANDS ! j"
    using assms(6) c by (auto simp: NUM_COMMANDS_def COMMANDS_def nth_Cons split: nat.splits)
  then have "command_loop 0 100 st = after_commands 100 st" by (rule command_loop_none) simp
  then show ?thesis using assms(3-5) c r by (simp add: dispatch_def after_commands_def)
qed

lemma dispatch_exit:
  assumes "command st = line @ replicate (COMMAND_SIZE - length line) 0"
    and "length line < COMMAND_SIZE"
    and "ch CHR ''?'' \<notin> set (cstr line)" "ch CHR ''!'' \<in> set (cstr line)"
  shows "dispatch st =
         Returned (clear_command (serial_print AllDebuggingDisabled
           (st\<lparr>testLEDr := False, testRad := False, debugRad := False, reset := False\<rparr>)))"
proof -
  have c: "cstr (command st) = cstr line" using assms(1,2) by (simp add: cstr_pad)
  have z: "0 \<in> set (command st)" using assms(1,2) by simp
  have r: "read_command st = st" using z by (simp add: read_command_def)
  show ?thesis using assms(3,4) c r by (simp add: dispatch_def)
qed

lemma dispatch_query:
  assumes "command st = line @ replicate (COMMAND_SIZE - length line) 0"
    and "length line < COMMAND_SIZE" "ch CHR ''?'' \<in> set (cstr line)"
  shows "dispatch st = Returned (clear_command (serial_print ValidCommands st))"
proof -
  have c: "cstr (command st) = cstr line" using assms(1,2) by (simp add: cstr_pad)
  have z: "0 \<in> set (command st)" using assms(1,2) by simp
  have r: "read_command st = st" using z by (simp add: read_command_def)
  show ?thesis using assms(3) c r by (simp add: dispatch_def)
qed

text \<open>A line with a \<open>?\<close> in its text, typed into the cleared buffer: the call that reads
  the terminator prints the list of commands, clears the buffer and returns; nothing else
  changes.\<close>

lemma console_query:
  assumes "posn st = 0" "command st = replicate COMMAND_SIZE 0"
    and "length line < COMMAND_SIZE" "NL \<notin> set line" "CR \<notin> set line"
    and "ch CHR ''?'' \<in> set (cstr line)"
    and "nl = NL \<or> nl = CR"
  shows "console (Suc (length line)) (st\<lparr>usb_in := line @ nl # rest\<rparr>) =
         Returned (st\<lparr>usb_in := rest, serialChar := nl,
                      usb_out := usb_out st @ [ValidCommands]\<rparr>)"
proof -
  have ne: "line \<noteq> []" using assms(6) by (auto simp: cstr_def)
  let ?st1 = "st\<lparr>usb_in := rest, serialChar := nl,
                      command := line @ replicate (COMMAND_SIZE - length line) 0,
                      posn := of_nat (length line)\<rparr>"
  have "console (Suc (length line)) (st\<lparr>usb_in := line @ nl # rest\<rparr>) = dispatch ?st1"
    by (rule console_line[OF assms(1,2) ne assms(3,4,5,7)])
  also have "\<dots> = Returned (clear_command (serial_print ValidCommands ?st1))"
    by (rule dispatch_query[OF _ assms(3) assms(6)]) simp
  finally show ?thesis
    using assms(1,2) by (cases st) (simp add: clear_command_def serial_print_def)
qed

lemma console_exit:
  assumes "posn st = 0" "command st = replicate COMMAND_SIZE 0"
    and "length line < COMMAND_SIZE" "NL \<notin> set line" "CR \<notin> set line"
    and "ch CHR ''!'' \<in> set (cstr line)" "ch CHR ''?'' \<notin> set (cstr line)"
    and "nl = NL \<or> nl = CR"
  shows "console (Suc (length line)) (st\<lparr>usb_in := line @ nl # rest\<rparr>) =
         Returned (st\<lparr>usb_in := rest, serialChar := nl,
                      testLEDr := False, testRad := False, debugRad := False, reset := False,
                      usb_out := usb_out st @ [AllDebuggingDisabled]\<rparr>)"
proof -
  have ne: "line \<noteq> []" using assms(6) by (auto simp: cstr_def)
  let ?st1 = "st\<lparr>usb_in := rest, serialChar := nl,
                      command := line @ replicate (COMMAND_SIZE - length line) 0,
                      posn := of_nat (length line)\<rparr>"
  have "console (Suc (length line)) (st\<lparr>usb_in := line @ nl # rest\<rparr>) = dispatch ?st1"
    by (rule console_line[OF assms(1,2) ne assms(3,4,5,8)])
  also have "\<dots> = Returned (clear_command (serial_print AllDebuggingDisabled
           (?st1\<lparr>testLEDr := False, testRad := False, debugRad := False, reset := False\<rparr>)))"
    by (rule dispatch_exit[OF _ assms(3) assms(7) assms(6)]) simp
  finally show ?thesis
    using assms(1,2) by (cases st) (simp add: clear_command_def serial_print_def)
qed

lemma console_unknown:
  assumes "posn st = 0" "command st = replicate COMMAND_SIZE 0"
    and "length line < COMMAND_SIZE" "NL \<notin> set line" "CR \<notin> set line"
    and "cstr line \<noteq> []"
    and "ch CHR ''?'' \<notin> set (cstr line)" "ch CHR ''!'' \<notin> set (cstr line)"
    and "cstr line \<notin> set COMMANDS"
    and "nl = NL \<or> nl = CR"
  shows "console (Suc (length line)) (st\<lparr>usb_in := line @ nl # rest\<rparr>) =
         Returned (st\<lparr>usb_in := rest, serialChar := nl,
                      usb_out := usb_out st @ [NotValid (cstr line)]\<rparr>)"
proof -
  have ne: "line \<noteq> []" using assms(6) by (auto simp: cstr_def)
  let ?st1 = "st\<lparr>usb_in := rest, serialChar := nl,
                      command := line @ replicate (COMMAND_SIZE - length line) 0,
                      posn := of_nat (length line)\<rparr>"
  have "console (Suc (length line)) (st\<lparr>usb_in := line @ nl # rest\<rparr>) = dispatch ?st1"
    by (rule console_line[OF assms(1,2) ne assms(3,4,5,10)])
  also have "\<dots> = Returned (clear_command (serial_print (NotValid (cstr line)) ?st1))"
    by (rule dispatch_unknown[OF _ assms(3) assms(6) assms(7) assms(8) assms(9)]) simp
  finally show ?thesis
    using assms(1,2) by (cases st) (simp add: clear_command_def serial_print_def)
qed

text \<open>
  C7, as the code has it. The text of a line is what \<^verbatim>\<open>strstr\<close> sees: its characters up
  to the first NUL. From every combination of the four flags, with the command buffer
  cleared, a console line of at most 10 characters whose text has a \<open>!\<close> and no \<open>?\<close>
  makes the call of \<^verbatim>\<open>checkSerialUSB\<close> that reads its terminator set all four flags to
  false, print \<^verbatim>\<open>All debugging disabled.\<close>, clear the buffer and return: the outcome is
  \<open>Returned\<close>, no test loop is entered, and the console input behind the line is
  untouched. The test for \<open>?\<close> comes first in the code: a line whose text has a \<open>?\<close>,
  with or without a \<open>!\<close>, prints the list of commands and changes nothing else, the four
  flags included.
\<close>

theorem exit_clears_flags:
  assumes "posn st = 0" "command st = replicate COMMAND_SIZE 0"
    and "length line < COMMAND_SIZE" "NL \<notin> set line" "CR \<notin> set line"
    and "nl = NL \<or> nl = CR"
  shows "(ch CHR ''!'' \<in> set (cstr line) \<and> ch CHR ''?'' \<notin> set (cstr line) \<longrightarrow>
            console (Suc (length line)) (st\<lparr>usb_in := line @ nl # rest\<rparr>) =
              Returned (st\<lparr>usb_in := rest, serialChar := nl,
                           testLEDr := False, testRad := False, debugRad := False,
                           reset := False,
                           usb_out := usb_out st @ [AllDebuggingDisabled]\<rparr>))
       \<and> (ch CHR ''?'' \<in> set (cstr line) \<longrightarrow>
            console (Suc (length line)) (st\<lparr>usb_in := line @ nl # rest\<rparr>) =
              Returned (st\<lparr>usb_in := rest, serialChar := nl,
                           usb_out := usb_out st @ [ValidCommands]\<rparr>))"
  using console_exit[OF assms(1-5) _ _ assms(6)] console_query[OF assms(1-5) _ assms(6)]
  by blast

theorem exit_clears_flags_witness:
  "console 2 ((init [] [])\<lparr>testLEDr := True, testRad := True, debugRad := True, reset := True,
                             usb_in := [ch CHR ''!'', NL]\<rparr>)
     = Returned ((init [] [])\<lparr>serialChar := NL, usb_out := [AllDebuggingDisabled]\<rparr>)
   \<and> console 3 ((init [] [])\<lparr>testLEDr := True, testRad := True, debugRad := True,
                             reset := True, usb_in := [ch CHR ''?'', ch CHR ''!'', NL]\<rparr>)
     = Returned ((init [] [])\<lparr>testLEDr := True, testRad := True, debugRad := True,
                             reset := True, serialChar := NL, usb_out := [ValidCommands]\<rparr>)"
proof -
  let ?st = "(init [] [])\<lparr>testLEDr := True, testRad := True, debugRad := True, reset := True\<rparr>"
  have h: "posn ?st = 0" "command ?st = replicate COMMAND_SIZE 0" "NL = NL \<or> NL = CR"
    by (simp_all add: init_def)
  have a: "length [ch CHR ''!''] < COMMAND_SIZE" "NL \<notin> set [ch CHR ''!'']"
    "CR \<notin> set [ch CHR ''!'']"
    "ch CHR ''!'' \<in> set (cstr [ch CHR ''!'']) \<and> ch CHR ''?'' \<notin> set (cstr [ch CHR ''!''])"
    by (simp_all add: COMMAND_SIZE_def cstr_def NL_def CR_def)
  have b: "length [ch CHR ''?'', ch CHR ''!''] < COMMAND_SIZE"
    "NL \<notin> set [ch CHR ''?'', ch CHR ''!'']" "CR \<notin> set [ch CHR ''?'', ch CHR ''!'']"
    "ch CHR ''?'' \<in> set (cstr [ch CHR ''?'', ch CHR ''!''])"
    by (simp_all add: COMMAND_SIZE_def cstr_def NL_def CR_def)
  have e1: "Suc (length [ch CHR ''!'' :: byte]) = 2"
    and e2: "Suc (length [ch CHR ''?'', ch CHR ''!'' :: byte]) = 3" by simp_all
  have e3: "?st\<lparr>usb_in := [ch CHR ''!''] @ NL # []\<rparr>
            = (init [] [])\<lparr>testLEDr := True, testRad := True, debugRad := True, reset := True,
                             usb_in := [ch CHR ''!'', NL]\<rparr>"
    and e4: "?st\<lparr>usb_in := [ch CHR ''?'', ch CHR ''!''] @ NL # []\<rparr>
            = (init [] [])\<lparr>testLEDr := True, testRad := True, debugRad := True, reset := True,
                             usb_in := [ch CHR ''?'', ch CHR ''!'', NL]\<rparr>"
    by (simp_all add: init_def)
  have e5: "?st\<lparr>usb_in := [], serialChar := NL,
                           testLEDr := False, testRad := False, debugRad := False,
                           reset := False,
                           usb_out := usb_out ?st @ [AllDebuggingDisabled]\<rparr>
            = (init [] [])\<lparr>serialChar := NL, usb_out := [AllDebuggingDisabled]\<rparr>"
    and e6: "?st\<lparr>usb_in := [], serialChar := NL, usb_out := usb_out ?st @ [ValidCommands]\<rparr>
            = (init [] [])\<lparr>testLEDr := True, testRad := True, debugRad := True,
                             reset := True, serialChar := NL, usb_out := [ValidCommands]\<rparr>"
    by (simp_all add: init_def)
  from exit_clears_flags[OF h(1,2) a(1,2,3) h(3), of "[]"] a(4)
  have x: "console (Suc (length [ch CHR ''!'' :: byte])) (?st\<lparr>usb_in := [ch CHR ''!''] @ NL # []\<rparr>) =
              Returned (?st\<lparr>usb_in := [], serialChar := NL,
                           testLEDr := False, testRad := False, debugRad := False,
                           reset := False,
                           usb_out := usb_out ?st @ [AllDebuggingDisabled]\<rparr>)"
    by blast
  from exit_clears_flags[OF h(1,2) b(1,2,3) h(3), of "[]"] b(4)
  have y: "console (Suc (length [ch CHR ''?'', ch CHR ''!'' :: byte]))
             (?st\<lparr>usb_in := [ch CHR ''?'', ch CHR ''!''] @ NL # []\<rparr>) =
              Returned (?st\<lparr>usb_in := [], serialChar := NL,
                           usb_out := usb_out ?st @ [ValidCommands]\<rparr>)"
    by blast
  from x y show ?thesis unfolding e1 e2 e3 e4 e5 e6 by (rule conjI)
qed

text \<open>The line \<open>?!\<close> contains a \<open>!\<close>, and all four flags stay set.\<close>

theorem exit_after_query_counterexample:
  "testLEDr (final (console 3 ((init (map ch ''?!'' @ [NL]) [])
       \<lparr>testLEDr := True, testRad := True, debugRad := True, reset := True\<rparr>)))
   \<and> testRad (final (console 3 ((init (map ch ''?!'' @ [NL]) [])
       \<lparr>testLEDr := True, testRad := True, debugRad := True, reset := True\<rparr>)))
   \<and> debugRad (final (console 3 ((init (map ch ''?!'' @ [NL]) [])
       \<lparr>testLEDr := True, testRad := True, debugRad := True, reset := True\<rparr>)))
   \<and> reset (final (console 3 ((init (map ch ''?!'' @ [NL]) [])
       \<lparr>testLEDr := True, testRad := True, debugRad := True, reset := True\<rparr>)))"
  by code_simp

text \<open>
  C8, as the code has it. With the command buffer cleared, a console line of at most 10
  characters whose text (its characters up to the first NUL) is not empty, has neither
  \<open>?\<close> nor \<open>!\<close> and is none of the four command names leaves the state as it was but
  for the input read and one message, \<^verbatim>\<open>"..." is not a valid command.\<close>: the four flags
  are unchanged, the buffer is cleared again, the call returns, and no list of commands is
  printed. The list of commands, and nothing else, is what a line whose text has a \<open>?\<close>
  prints.
\<close>

theorem unknown_command_reported:
  assumes "posn st = 0" "command st = replicate COMMAND_SIZE 0"
    and "length line < COMMAND_SIZE" "NL \<notin> set line" "CR \<notin> set line"
    and "nl = NL \<or> nl = CR"
  shows "(cstr line \<noteq> [] \<and> ch CHR ''?'' \<notin> set (cstr line) \<and> ch CHR ''!'' \<notin> set (cstr line)
          \<and> cstr line \<notin> set COMMANDS \<longrightarrow>
            console (Suc (length line)) (st\<lparr>usb_in := line @ nl # rest\<rparr>) =
              Returned (st\<lparr>usb_in := rest, serialChar := nl,
                           usb_out := usb_out st @ [NotValid (cstr line)]\<rparr>))
       \<and> (ch CHR ''?'' \<in> set (cstr line) \<longrightarrow>
            console (Suc (length line)) (st\<lparr>usb_in := line @ nl # rest\<rparr>) =
              Returned (st\<lparr>usb_in := rest, serialChar := nl,
                           usb_out := usb_out st @ [ValidCommands]\<rparr>))"
  using console_unknown[OF assms(1-5) _ _ _ _ assms(6)] console_query[OF assms(1-5) _ assms(6)]
  by blast

theorem unknown_command_reported_witness:
  "console 4 (init (map ch ''abc'' @ [NL]) [])
     = Returned ((init [] [])\<lparr>serialChar := NL, usb_out := [NotValid (map ch ''abc'')]\<rparr>)
   \<and> console 2 (init [ch CHR ''?'', NL] [])
     = Returned ((init [] [])\<lparr>serialChar := NL, usb_out := [ValidCommands]\<rparr>)"
proof -
  have h: "posn (init [] []) = 0" "command (init [] []) = replicate COMMAND_SIZE 0"
    "NL = NL \<or> NL = CR"
    by (simp_all add: init_def)
  have a: "length (map ch ''abc'' :: byte list) < COMMAND_SIZE"
    "NL \<notin> set (map ch ''abc'')" "CR \<notin> set (map ch ''abc'')"
    "cstr (map ch ''abc'') \<noteq> [] \<and> ch CHR ''?'' \<notin> set (cstr (map ch ''abc''))
     \<and> ch CHR ''!'' \<notin> set (cstr (map ch ''abc'')) \<and> cstr (map ch ''abc'') \<notin> set COMMANDS"
    by (simp_all add: COMMAND_SIZE_def cstr_def NL_def CR_def COMMANDS_def)
  have b: "length [ch CHR ''?'' :: byte] < COMMAND_SIZE"
    "NL \<notin> set [ch CHR ''?'']" "CR \<notin> set [ch CHR ''?'']"
    "ch CHR ''?'' \<in> set (cstr [ch CHR ''?''])"
    by (simp_all add: COMMAND_SIZE_def cstr_def NL_def CR_def)
  have e1: "Suc (length (map ch ''abc'' :: byte list)) = 4"
    and e2: "Suc (length [ch CHR ''?'' :: byte]) = 2" by simp_all
  have e3: "(init [] [])\<lparr>usb_in := map ch ''abc'' @ NL # []\<rparr> = init (map ch ''abc'' @ [NL]) []"
    and e4: "(init [] [])\<lparr>usb_in := [ch CHR ''?''] @ NL # []\<rparr> = init [ch CHR ''?'', NL] []"
    by (simp_all add: init_def)
  have e5: "(init [] [])\<lparr>usb_in := [], serialChar := NL,
                usb_out := usb_out (init [] []) @ [NotValid (cstr (map ch ''abc''))]\<rparr>
            = (init [] [])\<lparr>serialChar := NL, usb_out := [NotValid (map ch ''abc'')]\<rparr>"
    and e6: "(init [] [])\<lparr>usb_in := [], serialChar := NL,
                usb_out := usb_out (init [] []) @ [ValidCommands]\<rparr>
            = (init [] [])\<lparr>serialChar := NL, usb_out := [ValidCommands]\<rparr>"
    by (simp_all add: init_def cstr_def)
  from unknown_command_reported[OF h(1,2) a(1,2,3) h(3), of "[]"] a(4)
  have x: "console (Suc (length (map ch ''abc'' :: byte list)))
          ((init [] [])\<lparr>usb_in := map ch ''abc'' @ NL # []\<rparr>) =
         Returned ((init [] [])\<lparr>usb_in := [], serialChar := NL,
                      usb_out := usb_out (init [] []) @ [NotValid (cstr (map ch ''abc''))]\<rparr>)"
    by blast
  from unknown_command_reported[OF h(1,2) b(1,2,3) h(3), of "[]"] b(4)
  have y: "console (Suc (length [ch CHR ''?'' :: byte]))
          ((init [] [])\<lparr>usb_in := [ch CHR ''?''] @ NL # []\<rparr>) =
         Returned ((init [] [])\<lparr>usb_in := [], serialChar := NL,
                      usb_out := usb_out (init [] []) @ [ValidCommands]\<rparr>)"
    by blast
  from x y show ?thesis unfolding e1 e2 e3 e4 e5 e6 by (rule conjI)
qed

text \<open>The line \<open>abc\<close> prints the error message and no list of commands; the line \<open>a!\<close>,
  which is neither \<open>?\<close> nor \<open>!\<close> nor a command name, clears \<^verbatim>\<open>debugRad\<close>.\<close>

theorem unknown_command_counterexample:
  "usb_out (final (console 4 (init (map ch ''abc'' @ [NL]) []))) = [NotValid (map ch ''abc'')]
   \<and> \<not> debugRad (final (console 3 ((init (map ch ''a!'' @ [NL]) [])\<lparr>debugRad := True\<rparr>)))"
  by code_simp

subsection \<open>Stores into command\<close>

text \<open>
  C5, what the code does. Twelve characters without a line terminator, typed into the
  cleared buffer, make \<^verbatim>\<open>checkSerialUSB\<close> execute \<^verbatim>\<open>command[posn] = serialChar\<close> with
  \<open>posn = 11\<close>, one past the last element of \<^verbatim>\<open>command[11]\<close>: the accumulate branch
  does not compare \<open>posn\<close> with the capacity.
\<close>

theorem long_line_overruns:
  assumes "posn st = 0" "command st = replicate COMMAND_SIZE 0"
    and "length line = Suc COMMAND_SIZE" "NL \<notin> set line" "CR \<notin> set line"
  shows "oob (final (console (length line) (st\<lparr>usb_in := line @ rest\<rparr>)))
         = oob st @ [StoreCommand COMMAND_SIZE]"
proof -
  from assms(3) obtain pre x where line: "line = pre @ [x]"
    by (cases line rule: rev_cases) simp_all
  have lp: "length pre = COMMAND_SIZE" using assms(3) line by simp
  have x: "x \<noteq> NL" "x \<noteq> CR" using assms(4,5) line by auto
  have pne: "pre \<noteq> []" using lp by (auto simp: COMMAND_SIZE_def)
  let ?st0 = "st\<lparr>usb_in := line @ rest\<rparr>"
  let ?st1 = "st\<lparr>usb_in := x # rest, serialChar := last pre, command := pre,
                   posn := of_nat COMMAND_SIZE\<rparr>"
  have "console (length pre + 1) ?st0 =
        console 1 (?st0\<lparr>usb_in := x # rest, serialChar := last pre,
                    command := ([] @ pre) @ replicate (COMMAND_SIZE - length ([] @ pre)) 0,
                    posn := of_nat (length ([] @ pre))\<rparr>)"
    using assms(1,2,4,5) line lp pne by (intro feed) simp_all
  then have f: "console (length line) ?st0 = console 1 ?st1"
    using lp line by simp
  have u: "unat (posn ?st1) = COMMAND_SIZE" by (simp add: unat_posn)
  have "checkSerialUSB ?st1 = Returned (store_command (?st1\<lparr>usb_in := rest, serialChar := x\<rparr>))"
    using x by (simp add: checkSerialUSB_def Let_def)
  then have "oob (final (console 1 ?st1)) = oob st @ [StoreCommand COMMAND_SIZE]"
    using u by (simp add: store_command_def Let_def)
  then show ?thesis unfolding f .
qed

theorem long_line_overruns_witness:
  "oob (final (console 12 (init (map ch ''abcdefghijkl'') []))) = [StoreCommand 11]"
proof -
  have e: "(init [] [])\<lparr>usb_in := map ch ''abcdefghijkl'' @ []\<rparr> = init (map ch ''abcdefghijkl'') []"
    by (simp add: init_def)
  have l: "length (map ch ''abcdefghijkl'' :: byte list) = 12" by simp
  have "oob (final (console (length (map ch ''abcdefghijkl'' :: byte list)) ((init [] [])\<lparr>usb_in := map ch ''abcdefghijkl'' @ []\<rparr>)))
         = oob (init [] []) @ [StoreCommand COMMAND_SIZE]"
    by (rule long_line_overruns) (simp_all add: init_def COMMAND_SIZE_def NL_def CR_def)
  then show ?thesis unfolding e l by (simp add: init_def COMMAND_SIZE_def)
qed


subsection \<open>The testLEDr command\<close>

lemma testLEDr_serial_print [simp]: "testLEDr (serial_print m st) = testLEDr st"
  by (simp add: serial_print_def)

lemma testLEDr_updateLED [simp]: "testLEDr (updateLED c st) = testLEDr st"
  by (simp add: updateLED_def)

lemma testLEDr_blink5 [simp]: "testLEDr (blink5 st) = testLEDr st"
proof -
  have "testLEDr (fold (\<lambda>i s. serial_print (Blink (i + 1)) (updateLED (ch CHR ''2'') s)) xs st)
        = testLEDr st" for xs
    by (induction xs arbitrary: st) simp_all
  then show ?thesis by (simp only: blink5_def)
qed


lemma cstr_testLEDr: "cstr (map ch ''testLEDr'') = COMMANDS ! 0"
  by (simp add: cstr_def COMMANDS_def)












end
